theory Spec2Isabelle
  imports Main "HOL-Library.Multiset"
begin

section \<open>JavaScript values\<close>

text \<open>
  The hook \<open>usePortsMetadata\<close> (src/hooks/usePortsMetadata.js) works on plain data: the
  resolved GraphQL result and the static port list. A value is one of the JSON-like
  shapes below. An object is the list of its properties read as an object literal: where
  a key occurs twice the later entry is the value, as in \<open>{a: 1, ...x, a: 2}\<close>. Numbers
  are integers (the query only yields GraphQL \<open>Int\<close>s). Properties inherited from a
  prototype (methods) are not data and are not modelled.
\<close>

datatype jsval =
    Undefined
  | Null
  | Bool bool
  | Num int
  | Str string
  | Arr "jsval list"
  | Obj "(string \<times> jsval) list"

text \<open>Every fault of the source is a JavaScript \<open>TypeError\<close>; the constructor says which.\<close>

datatype type_error =
    CannotReadProperty string
  | NotAFunction string
  | CannotConvertToPrimitive

definition and_then :: "type_error + 'a \<Rightarrow> ('a \<Rightarrow> type_error + 'b) \<Rightarrow> type_error + 'b" where
  "and_then m f = (case m of Inl e \<Rightarrow> Inl e | Inr x \<Rightarrow> f x)"

fun map_result :: "('a \<Rightarrow> type_error + 'b) \<Rightarrow> 'a list \<Rightarrow> type_error + 'b list" where
  "map_result f [] = Inr []"
| "map_result f (x # xs) =
     (case f x of
        Inl e \<Rightarrow> Inl e
      | Inr y \<Rightarrow> (case map_result f xs of Inl e \<Rightarrow> Inl e | Inr ys \<Rightarrow> Inr (y # ys)))"

subsection \<open>Decimal numerals\<close>

definition digit_char :: "nat \<Rightarrow> char" where
  "digit_char d = char_of (48 + d)"

function show_nat :: "nat \<Rightarrow> string" where
  "show_nat n = (if n < 10 then [digit_char n] else show_nat (n div 10) @ [digit_char (n mod 10)])"
  by pat_completeness auto
termination
  by (relation "measure id") auto

declare show_nat.simps [simp del]

definition show_int :: "int \<Rightarrow> string" where
  "show_int i = (if i < 0 then CHR ''-'' # show_nat (nat (- i)) else show_nat (nat i))"

subsection \<open>Properties\<close>

definition is_nullish :: "jsval \<Rightarrow> bool" where
  "is_nullish v = (v = Undefined \<or> v = Null)"

definition has_key :: "string \<Rightarrow> (string \<times> jsval) list \<Rightarrow> bool" where
  "has_key k kvs = (k \<in> set (map fst kvs))"

definition field :: "(string \<times> jsval) list \<Rightarrow> string \<Rightarrow> jsval" where
  \<comment> \<open>\<open>o[k]\<close> on an object: the last entry for \<open>k\<close>, \<open>undefined\<close> when there is none\<close>
  "field kvs k = (case map_of (rev kvs) k of None \<Rightarrow> Undefined | Some v \<Rightarrow> v)"

definition elem_at :: "'a list \<Rightarrow> string \<Rightarrow> 'a option" where
  \<comment> \<open>\<open>xs[k]\<close> on an array or a string: \<open>k\<close> is the decimal numeral of an index in range\<close>
  "elem_at xs k = map_option (\<lambda>i. xs ! i) (List.find (\<lambda>i. show_nat i = k) [0..<length xs])"

text \<open>The own enumerable properties, which object spread and rest destructuring copy.\<close>

fun own_props :: "jsval \<Rightarrow> (string \<times> jsval) list" where
  "own_props (Obj kvs) = kvs"
| "own_props (Arr xs) = zip (map show_nat [0..<length xs]) xs"
| "own_props (Str s) = zip (map show_nat [0..<length s]) (map (\<lambda>c. Str [c]) s)"
| "own_props _ = []"

text \<open>Member access \<open>v.k\<close> or \<open>v[k]\<close>: a TypeError on \<open>undefined\<close> and \<open>null\<close>.\<close>

fun read_prop :: "jsval \<Rightarrow> string \<Rightarrow> type_error + jsval" where
  "read_prop Undefined k = Inl (CannotReadProperty k)"
| "read_prop Null k = Inl (CannotReadProperty k)"
| "read_prop (Obj kvs) k = Inr (field kvs k)"
| "read_prop (Arr xs) k =
     Inr (if k = ''length'' then Num (int (length xs))
          else (case elem_at xs k of None \<Rightarrow> Undefined | Some v \<Rightarrow> v))"
| "read_prop (Str s) k =
     Inr (if k = ''length'' then Num (int (length s))
          else (case elem_at s k of None \<Rightarrow> Undefined | Some c \<Rightarrow> Str [c]))"
| "read_prop (Bool b) k = Inr Undefined"
| "read_prop (Num n) k = Inr Undefined"

text \<open>
  \<open>===\<close> between a remote and a static value: primitives by value; objects and arrays of
  the two sources are never the same reference.
\<close>

fun strict_eq :: "jsval \<Rightarrow> jsval \<Rightarrow> bool" where
  "strict_eq Undefined Undefined = True"
| "strict_eq Null Null = True"
| "strict_eq (Bool a) (Bool b) = (a = b)"
| "strict_eq (Num a) (Num b) = (a = b)"
| "strict_eq (Str a) (Str b) = (a = b)"
| "strict_eq _ _ = False"

subsection \<open>Conversion to string and to number\<close>

fun join_commas :: "string list \<Rightarrow> string" where
  "join_commas [] = []"
| "join_commas [s] = s"
| "join_commas (s # t # ts) = s @ '','' @ join_commas (t # ts)"

fun to_string :: "jsval \<Rightarrow> type_error + string"
  and elems_to_string :: "jsval list \<Rightarrow> type_error + string list" where
  "to_string Undefined = Inr ''undefined''"
| "to_string Null = Inr ''null''"
| "to_string (Bool b) = Inr (if b then ''true'' else ''false'')"
| "to_string (Num n) = Inr (show_int n)"
| "to_string (Str s) = Inr s"
| "to_string (Arr xs) =
     (case elems_to_string xs of Inl e \<Rightarrow> Inl e | Inr ss \<Rightarrow> Inr (join_commas ss))"
| "to_string (Obj kvs) =
     (if has_key ''toString'' kvs then Inl CannotConvertToPrimitive
      else Inr ''[object Object]'')"
| "elems_to_string [] = Inr []"
| "elems_to_string (x # xs) =
     (case (if is_nullish x then Inr [] else to_string x) of
        Inl e \<Rightarrow> Inl e
      | Inr s \<Rightarrow> (case elems_to_string xs of Inl e \<Rightarrow> Inl e | Inr ss \<Rightarrow> Inr (s # ss)))"

text \<open>
  \<open>ToPrimitive\<close>: an object or array operand of \<open><\<close> is replaced by its string. An own
  \<open>toString\<close> property of a data object is not callable, so no primitive is reached.
\<close>

definition to_primitive :: "jsval \<Rightarrow> type_error + jsval" where
  "to_primitive v =
     (case v of
        Arr xs \<Rightarrow> and_then (to_string v) (\<lambda>s. Inr (Str s))
      | Obj kvs \<Rightarrow> and_then (to_string v) (\<lambda>s. Inr (Str s))
      | _ \<Rightarrow> Inr v)"

definition is_space :: "char \<Rightarrow> bool" where
  "is_space c = (c \<in> set [CHR '' '', CHR 0x09, CHR 0x0A, CHR 0x0B, CHR 0x0C, CHR 0x0D])"

definition is_digit :: "char \<Rightarrow> bool" where
  "is_digit c = (48 \<le> (of_char c :: nat) \<and> (of_char c :: nat) \<le> 57)"

definition digits_value :: "string \<Rightarrow> int" where
  "digits_value ds = foldl (\<lambda>acc c. 10 * acc + (int (of_char c) - 48)) 0 ds"

text \<open>
  \<open>StringToNumber\<close>, for the numbers the model has: surrounding white space is dropped,
  the empty string is \<open>0\<close>, an optionally signed run of decimal digits is its value, and
  every other string is \<open>NaN\<close> (\<open>None\<close>). Fractions, exponents, \<open>Infinity\<close> and the
  prefixed literals denote numbers outside \<open>Num\<close>.
\<close>

definition str_to_number :: "string \<Rightarrow> int option" where
  "str_to_number s =
     (let t = rev (dropWhile is_space (rev (dropWhile is_space s))) in
      case t of
        [] \<Rightarrow> Some 0
      | c # ds \<Rightarrow>
          if c = CHR ''-'' \<and> ds \<noteq> [] \<and> list_all is_digit ds then Some (- digits_value ds)
          else if c = CHR ''+'' \<and> ds \<noteq> [] \<and> list_all is_digit ds then Some (digits_value ds)
          else if list_all is_digit t then Some (digits_value t)
          else None)"

fun to_number :: "jsval \<Rightarrow> int option" where
  "to_number Undefined = None"
| "to_number Null = Some 0"
| "to_number (Bool b) = Some (if b then 1 else 0)"
| "to_number (Num n) = Some n"
| "to_number (Str s) = str_to_number s"
| "to_number (Arr xs) = None"
| "to_number (Obj kvs) = None"

fun str_lt :: "string \<Rightarrow> string \<Rightarrow> bool" where
  "str_lt [] [] = False"
| "str_lt [] (d # t) = True"
| "str_lt (c # s) [] = False"
| "str_lt (c # s) (d # t) =
     (if c = d then str_lt s t else (of_char c :: nat) < of_char d)"

text \<open>
  The relational operator \<open>a < b\<close>: both operands to primitives, left first; two strings
  compare by code units, anything else as numbers, and \<open>NaN\<close> on either side is \<open>false\<close>.
\<close>

definition js_lt :: "jsval \<Rightarrow> jsval \<Rightarrow> type_error + bool" where
  "js_lt a b =
     and_then (to_primitive a) (\<lambda>pa.
     and_then (to_primitive b) (\<lambda>pb.
       Inr (case (pa, pb) of
              (Str s, Str t) \<Rightarrow> str_lt s t
            | _ \<Rightarrow> (case (to_number pa, to_number pb) of
                       (Some x, Some y) \<Rightarrow> x < y
                     | _ \<Rightarrow> False))))"

section \<open>The hook\<close>

text \<open>
  \<open>const stripPrefix = name => name.replace(/^(nord-)/, "")\<close> (line 77): the pattern is
  anchored at the start, so at most the leading \<open>nord-\<close> goes.
\<close>

definition replace_nord :: "string \<Rightarrow> string" where
  "replace_nord s = (if take 5 s = ''nord-'' then drop 5 s else s)"

text \<open>
  The call \<open>name.replace(...)\<close> on a value: only a string has the method; on
  \<open>undefined\<close> and \<open>null\<close> the property read itself faults.
\<close>

fun stripPrefix :: "jsval \<Rightarrow> type_error + string" where
  "stripPrefix (Str s) = Inr (replace_nord s)"
| "stripPrefix Undefined = Inl (CannotReadProperty ''replace'')"
| "stripPrefix Null = Inl (CannotReadProperty ''replace'')"
| "stripPrefix v = Inl (NotAFunction ''replace'')"

text \<open>
  The callback of \<open>find\<close> (line 86):
  \<open>ghRepo => ghRepo.node[idProperty] === port[idProperty]\<close>.
\<close>

definition id_matches :: "string \<Rightarrow> jsval \<Rightarrow> jsval \<Rightarrow> type_error + bool" where
  "id_matches idProperty port ghRepo =
     and_then (read_prop ghRepo ''node'') (\<lambda>node.
     and_then (read_prop node idProperty) (\<lambda>a.
     and_then (read_prop port idProperty) (\<lambda>b.
       Inr (strict_eq a b))))"

text \<open>
  \<open>Array.prototype.find\<close>: the first element the callback accepts, \<open>undefined\<close> when
  there is none; a fault of the callback ends the scan.
\<close>

fun find_edge :: "string \<Rightarrow> jsval \<Rightarrow> jsval list \<Rightarrow> type_error + jsval" where
  "find_edge idProperty port [] = Inr Undefined"
| "find_edge idProperty port (ghRepo # rest) =
     (case id_matches idProperty port ghRepo of
        Inl e \<Rightarrow> Inl e
      | Inr True \<Rightarrow> Inr ghRepo
      | Inr False \<Rightarrow> find_edge idProperty port rest)"

text \<open>
  \<open>const { releases, stargazers, url, ...ghRepoData } = gh.node\<close> (line 87): the rest
  element takes every own property but the three named ones.
\<close>

definition ghRepoData :: "jsval \<Rightarrow> (string \<times> jsval) list" where
  "ghRepoData node =
     filter (\<lambda>(k, v). k \<notin> set [''releases'', ''stargazers'', ''url'']) (own_props node)"

text \<open>
  The four properties the object literal writes first (lines 89 to 92), evaluated in the
  order of the source. \<open>releases.edges[0]?.node\<close> stops at a nullish first edge.
  \<open>ROUTE_PORTS\<close> is imported from \<open>config/routes/mappings\<close> and is a parameter here.
\<close>

definition derived :: "string \<Rightarrow> jsval \<Rightarrow> type_error + (string \<times> jsval) list" where
  "derived ROUTE_PORTS node =
     and_then (read_prop node ''releases'') (\<lambda>releases.
     and_then (read_prop node ''stargazers'') (\<lambda>stargazers.
     and_then (read_prop node ''url'') (\<lambda>url.
     and_then (read_prop stargazers ''totalCount'') (\<lambda>totalCount.
     and_then (to_string url) (\<lambda>url_text.
     and_then (read_prop releases ''edges'') (\<lambda>edges.
     and_then (read_prop edges ''0'') (\<lambda>first.
     and_then (if is_nullish first then Inr Undefined else read_prop first ''node'') (\<lambda>latest.
     and_then (read_prop node ''name'') (\<lambda>name.
     and_then (stripPrefix name) (\<lambda>stripped.
       Inr [(''gitHubRepositoryUrl'', url),
            (''stargazers'',
               Obj [(''count'', totalCount), (''url'', Str (url_text @ ''/stargazers''))]),
            (''releaseLatest'', latest),
            (''url'', Str (ROUTE_PORTS @ ''/'' @ stripped))]))))))))))"

text \<open>
  The callback of \<open>projectPorts.map\<close> (lines 85 to 96): look the port up, then build
  \<open>{ ...four properties, ...ghRepoData, ...port }\<close>.
\<close>

definition mergePort :: "string \<Rightarrow> string \<Rightarrow> jsval list \<Rightarrow> jsval \<Rightarrow> type_error + jsval" where
  "mergePort ROUTE_PORTS idProperty edges port =
     and_then (find_edge idProperty port edges) (\<lambda>gh.
     and_then (read_prop gh ''node'') (\<lambda>node.
     and_then (derived ROUTE_PORTS node) (\<lambda>fields.
       Inr (Obj (fields @ ghRepoData node @ own_props port)))))"

definition merged :: "string \<Rightarrow> string \<Rightarrow> jsval list \<Rightarrow> jsval list \<Rightarrow> type_error + jsval list" where
  "merged ROUTE_PORTS idProperty edges projectPorts =
     map_result (mergePort ROUTE_PORTS idProperty edges) projectPorts"

text \<open>
  The comparator handed to \<open>sort\<close> (line 97):
  \<open>(md1, md2) => md1.stargazers.count < md2.stargazers.count\<close>. It returns a boolean.
\<close>

definition by_stars :: "jsval \<Rightarrow> jsval \<Rightarrow> type_error + bool" where
  "by_stars md1 md2 =
     and_then (read_prop md1 ''stargazers'') (\<lambda>s1.
     and_then (read_prop s1 ''count'') (\<lambda>c1.
     and_then (read_prop md2 ''stargazers'') (\<lambda>s2.
     and_then (read_prop s2 ''count'') (\<lambda>c2.
       js_lt c1 c2))))"

text \<open>
  The hook (lines 67 to 101). Its inputs are the arguments here: \<open>idProperty\<close> (the
  caller may leave it out, it is then \<open>"name"\<close>), the array
  \<open>gitHubApi.github.search.edges\<close> of the resolved query as \<open>edges\<close>, and the imported
  static list \<open>projectPorts\<close>. \<open>useMemo\<close> only caches the value computed here.

  \<open>Array.prototype.sort\<close> belongs to the JavaScript engine that runs the hook, so the
  hook takes it as the parameter \<open>host_sort\<close>: a function from a comparator and an array to
  the sorted array, or to the fault the comparator raised.
\<close>

type_synonym comparator = "jsval \<Rightarrow> jsval \<Rightarrow> type_error + bool"
type_synonym array_sort = "comparator \<Rightarrow> jsval list \<Rightarrow> type_error + jsval list"

definition usePortsMetadata ::
  "array_sort \<Rightarrow> string \<Rightarrow> string \<Rightarrow> jsval list \<Rightarrow> jsval list \<Rightarrow> type_error + jsval list" where
  "usePortsMetadata host_sort ROUTE_PORTS idProperty edges projectPorts =
     and_then (merged ROUTE_PORTS idProperty edges projectPorts) (\<lambda>ms. host_sort by_stars ms)"

section \<open>The engine's sort\<close>

text \<open>
  What the language promises of \<open>sort\<close>: the result holds the elements of the array,
  each as often as before, and a fault can only be one the comparator raised on two of
  them. The order is fixed by the language only for a consistent comparator, which a
  boolean-valued one is not (\<open>5 < 3\<close> is \<open>false\<close>, read as "equal", while \<open>3 < 5\<close> is
  \<open>true\<close>, read as "greater"), so the order is the engine's choice.
\<close>

definition conforming :: "array_sort \<Rightarrow> bool" where
  "conforming host_sort =
     (\<forall>c xs. case host_sort c xs of
               Inr ys \<Rightarrow> mset ys = mset xs
             | Inl e \<Rightarrow> \<exists>x \<in> set xs. \<exists>y \<in> set xs. c x y = Inl e)"

text \<open>
  One engine, for evaluation: V8 (Node.js 11 and later, Chrome 70 and later) sorts with
  TimSort (\<open>third_party/v8/builtins/array-sort.tq\<close>). For an array of fewer than 64
  elements the minimal run length is the array length, so TimSort is: find the run the
  array starts with, then place every remaining element by binary insertion.
  The engine converts the comparator's result to a number: \<open>true\<close> is \<open>1\<close>, \<open>false\<close>
  is \<open>0\<close>.
\<close>

definition sort_compare :: "comparator \<Rightarrow> jsval \<Rightarrow> jsval \<Rightarrow> type_error + int" where
  "sort_compare comparefn x y = and_then (comparefn x y) (\<lambda>b. Inr (if b then 1 else 0))"

text \<open>
  \<open>CountAndMakeRun\<close>: the run goes on while each element compares \<open>>= 0\<close> to the one
  before it (or \<open>< 0\<close>, in a run that started descending); a descending run is reversed.
\<close>

fun run_rest :: "comparator \<Rightarrow> bool \<Rightarrow> jsval \<Rightarrow> jsval list \<Rightarrow> type_error + nat" where
  "run_rest c descending previous [] = Inr 0"
| "run_rest c descending previous (x # xs) =
     (case sort_compare c x previous of
        Inl e \<Rightarrow> Inl e
      | Inr order \<Rightarrow>
          if (if descending then 0 \<le> order else order < 0) then Inr 0
          else (case run_rest c descending x xs of Inl e \<Rightarrow> Inl e | Inr n \<Rightarrow> Inr (Suc n)))"

fun count_and_make_run :: "comparator \<Rightarrow> jsval list \<Rightarrow> type_error + jsval list \<times> jsval list" where
  "count_and_make_run c (high # low # xs) =
     (case sort_compare c low high of
        Inl e \<Rightarrow> Inl e
      | Inr order \<Rightarrow>
          (case run_rest c (order < 0) low xs of
             Inl e \<Rightarrow> Inl e
           | Inr n \<Rightarrow>
               let run = high # low # take n xs
               in Inr (if order < 0 then rev run else run, drop n xs)))"
| "count_and_make_run c xs = Inr (xs, [])"

text \<open>
  \<open>BinaryInsertionSort\<close>: the place of \<open>pivot\<close> in the sorted part \<open>work\<close>, searched
  between \<open>left\<close> and \<open>right\<close>; only a negative comparison moves to the left half.
\<close>

function binary_search :: "comparator \<Rightarrow> jsval \<Rightarrow> jsval list \<Rightarrow> nat \<Rightarrow> nat \<Rightarrow> type_error + nat" where
  "binary_search c pivot work left right =
     (if left < right then
        (let mid = left + (right - left) div 2 in
         case sort_compare c pivot (work ! mid) of
           Inl e \<Rightarrow> Inl e
         | Inr order \<Rightarrow>
             if order < 0 then binary_search c pivot work left mid
             else binary_search c pivot work (mid + 1) right)
      else Inr left)"
  by pat_completeness auto
termination
  by (relation "measure (\<lambda>(c, pivot, work, left, right). right - left)") auto

declare binary_search.simps [simp del]

fun insert_all :: "comparator \<Rightarrow> jsval list \<Rightarrow> jsval list \<Rightarrow> type_error + jsval list" where
  "insert_all c work [] = Inr work"
| "insert_all c work (pivot # rest) =
     (case binary_search c pivot work 0 (length work) of
        Inl e \<Rightarrow> Inl e
      | Inr left \<Rightarrow> insert_all c (take left work @ pivot # drop left work) rest)"

definition v8_sort :: array_sort where
  "v8_sort c xs =
     (if length xs < 2 then Inr xs
      else and_then (count_and_make_run c xs) (\<lambda>(run, rest). insert_all c run rest))"

section \<open>Shapes and reading helpers used in the statements\<close>

text \<open>What a consumer reads: \<open>v[k]\<close> of a value that is not nullish.\<close>

definition field_of :: "string \<Rightarrow> jsval \<Rightarrow> jsval" where
  "field_of k v = field (own_props v) k"

definition result_field :: "string \<Rightarrow> type_error + jsval \<Rightarrow> type_error + jsval" where
  "result_field k r = and_then r (\<lambda>md. read_prop md k)"

text \<open>
  \<open>has_path v [k1, k2]\<close>: \<open>v\<close> has the own property \<open>k1\<close>, and its value has the own
  property \<open>k2\<close> (as in \<open>stargazers.count\<close>).
\<close>

fun has_path :: "jsval \<Rightarrow> string list \<Rightarrow> bool" where
  "has_path v [] = True"
| "has_path v (k # ks) = (has_key k (own_props v) \<and> has_path (field_of k v) ks)"

text \<open>
  A repository node as the query (lines 21 to 49) returns it: \<open>name\<close> and \<open>url\<close> are
  strings, \<open>stargazers.totalCount\<close> is an integer, \<open>releases.edges\<close> is an array of edges
  that each carry a release under \<open>node\<close>.
\<close>

definition release_edge :: "jsval \<Rightarrow> bool" where
  "release_edge e =
     (case e of
        Obj kvs \<Rightarrow> (case field kvs ''node'' of Obj release \<Rightarrow> True | _ \<Rightarrow> False)
      | _ \<Rightarrow> False)"

definition release_list :: "jsval \<Rightarrow> jsval list option" where
  "release_list node =
     (case field_of ''releases'' node of
        Obj releases \<Rightarrow> (case field releases ''edges'' of Arr es \<Rightarrow> Some es | _ \<Rightarrow> None)
      | _ \<Rightarrow> None)"

definition remote_record :: "jsval \<Rightarrow> bool" where
  "remote_record node =
     (case node of
        Obj kvs \<Rightarrow>
          (case field kvs ''name'' of Str n \<Rightarrow> True | _ \<Rightarrow> False)
          \<and> (case field kvs ''url'' of Str u \<Rightarrow> True | _ \<Rightarrow> False)
          \<and> (case field kvs ''stargazers'' of
                Obj stargazers \<Rightarrow>
                  (case field stargazers ''totalCount'' of Num n \<Rightarrow> True | _ \<Rightarrow> False)
              | _ \<Rightarrow> False)
          \<and> (case release_list node of Some es \<Rightarrow> list_all release_edge es | None \<Rightarrow> False)
      | _ \<Rightarrow> False)"

text \<open>
  The static record \<open>port\<close> has a matching remote record: \<open>find\<close> returns an edge, and the
  edge holds a repository node.
\<close>

definition covered :: "string \<Rightarrow> jsval list \<Rightarrow> jsval \<Rightarrow> bool" where
  "covered idProperty edges port =
     (case find_edge idProperty port edges of
        Inr gh \<Rightarrow> (case read_prop gh ''node'' of Inr node \<Rightarrow> remote_record node | Inl e \<Rightarrow> False)
      | Inl e \<Rightarrow> False)"

text \<open>The order claim C1 speaks of: each record's \<open>stargazers.count\<close> is at least the next one's.\<close>

definition star_count :: "jsval \<Rightarrow> int option" where
  "star_count md = (case field_of ''count'' (field_of ''stargazers'' md) of Num n \<Rightarrow> Some n | _ \<Rightarrow> None)"

fun descending_by_stars :: "jsval list \<Rightarrow> bool" where
  "descending_by_stars (a # b # rest) =
     ((case (star_count a, star_count b) of (Some x, Some y) \<Rightarrow> y \<le> x | _ \<Rightarrow> False)
      \<and> descending_by_stars (b # rest))"
| "descending_by_stars xs = True"

text \<open>
  The pass-through set as claim C4 words it: the remote fields without the release list,
  the stargazer total, the canonical URL and the identifying field. It is compared with
  \<open>ghRepoData\<close>, which is what line 87 computes.
\<close>

definition pass_through_as_claimed :: "string \<Rightarrow> jsval \<Rightarrow> (string \<times> jsval) list" where
  "pass_through_as_claimed idProperty node =
     filter (\<lambda>(k, v). k \<notin> set [''releases'', ''stargazers'', ''url'', idProperty]) (own_props node)"

section \<open>Sample data\<close>

text \<open>
  Two repository nodes as the query returns them, their edges, and a second edge with the
  name \<open>nord-vim\<close>; the statements below are evaluated on them.
\<close>

definition nord_vim :: jsval where
  "nord_vim =
     Obj [(''id'', Str ''R1''), (''name'', Str ''nord-vim''),
          (''releases'', Obj [(''edges'', Arr [Obj [(''node'', Obj [(''name'', Str ''v0.19.0'')])]])]),
          (''stargazers'', Obj [(''totalCount'', Num 20)]),
          (''url'', Str ''gh/nord-vim'')]"

definition nord_tmux :: jsval where
  "nord_tmux =
     Obj [(''id'', Str ''R2''), (''name'', Str ''nord-tmux''),
          (''releases'', Obj [(''edges'', Arr [])]),
          (''stargazers'', Obj [(''totalCount'', Num 5)]),
          (''url'', Str ''gh/nord-tmux'')]"

definition nord_vim_copy :: jsval where
  "nord_vim_copy =
     Obj [(''id'', Str ''R3''), (''name'', Str ''nord-vim''),
          (''releases'', Obj [(''edges'', Arr [])]),
          (''stargazers'', Obj [(''totalCount'', Num 7)]),
          (''url'', Str ''gh/copy/nord-vim'')]"

definition nord_vim_edge :: jsval where
  "nord_vim_edge = Obj [(''node'', nord_vim)]"

definition nord_tmux_edge :: jsval where
  "nord_tmux_edge = Obj [(''node'', nord_tmux)]"

definition nord_vim_copy_edge :: jsval where
  "nord_vim_copy_edge = Obj [(''node'', nord_vim_copy)]"

text \<open>Two static records, as \<open>data/ports\<close> lists them.\<close>

definition vim_port :: jsval where
  "vim_port = Obj [(''name'', Str ''nord-vim''), (''title'', Str ''Vim'')]"

definition tmux_port :: jsval where
  "tmux_port = Obj [(''name'', Str ''nord-tmux''), (''title'', Str ''tmux'')]"

section \<open>Basic facts\<close>

lemma and_then_Inr [simp]: "and_then (Inr x) f = f x"
  by (simp add: and_then_def)

lemma and_then_Inl [simp]: "and_then (Inl e) f = Inl e"
  by (simp add: and_then_def)

lemma and_then_eq_Inr: "and_then m f = Inr y \<longleftrightarrow> (\<exists>x. m = Inr x \<and> f x = Inr y)"
  by (cases m) simp_all

lemma map_result_length: "map_result f xs = Inr ys \<Longrightarrow> length ys = length xs"
  by (induction xs arbitrary: ys) (auto split: sum.splits)

lemma map_result_fault: "x \<in> set xs \<Longrightarrow> f x = Inl e \<Longrightarrow> \<exists>e'. map_result f xs = Inl e'"
  by (induction xs) (auto split: sum.splits)

lemma map_result_total: "(\<And>x. x \<in> set xs \<Longrightarrow> \<exists>y. f x = Inr y) \<Longrightarrow> \<exists>ys. map_result f xs = Inr ys"
proof (induction xs)
  case Nil
  then show ?case by simp
next
  case (Cons x xs)
  then obtain y where "f x = Inr y" by auto
  moreover from Cons obtain ys where "map_result f xs = Inr ys" by auto
  ultimately show ?case by simp
qed

lemma map_result_elems:
  "map_result f xs = Inr ys \<Longrightarrow> y \<in> set ys \<Longrightarrow> \<exists>x \<in> set xs. f x = Inr y"
  by (induction xs arbitrary: ys) (auto split: sum.splits)

lemma find_edge_none:
  "(\<And>e. e \<in> set edges \<Longrightarrow> id_matches idp port e = Inr False) \<Longrightarrow> find_edge idp port edges = Inr Undefined"
  by (induction edges) simp_all

lemma find_edge_first:
  "(\<And>e. e \<in> set pre \<Longrightarrow> id_matches idp port e = Inr False) \<Longrightarrow> id_matches idp port gh = Inr True
   \<Longrightarrow> find_edge idp port (pre @ gh # post) = Inr gh"
  by (induction pre) simp_all

lemma map_of_rev_None: "map_of (rev xs) k = None \<longleftrightarrow> \<not> has_key k xs"
  by (simp add: has_key_def map_of_eq_None_iff)

lemma field_append: "field (xs @ ys) k = (if has_key k ys then field ys k else field xs k)"
proof (cases "map_of (rev ys) k")
  case None
  then show ?thesis using map_of_rev_None [of ys k] by (simp add: field_def map_add_def)
next
  case (Some v)
  then show ?thesis using map_of_rev_None [of ys k] by (simp add: field_def map_add_def)
qed

lemma has_key_append: "has_key k (xs @ ys) = (has_key k xs \<or> has_key k ys)"
  by (auto simp: has_key_def)

lemma sort_compare_Inl: "sort_compare c x y = Inl e \<Longrightarrow> c x y = Inl e"
  by (cases "c x y") (simp_all add: sort_compare_def)

lemma sort_compare_nonneg: "sort_compare c x y = Inr order \<Longrightarrow> 0 \<le> order"
  by (cases "c x y") (auto simp: sort_compare_def split: if_splits)

lemma run_rest_fault:
  "run_rest c d prev xs = Inl e \<Longrightarrow> \<exists>x \<in> set (prev # xs). \<exists>y \<in> set (prev # xs). c x y = Inl e"
proof (induction xs arbitrary: prev)
  case Nil
  then show ?case by simp
next
  case (Cons a xs)
  show ?case
  proof (cases "sort_compare c a prev")
    case (Inl e')
    with Cons.prems have "e' = e" by simp
    with Inl have "c a prev = Inl e" by (simp add: sort_compare_Inl)
    then show ?thesis by auto
  next
    case (Inr order)
    with Cons.prems have "run_rest c d a xs = Inl e"
      by (auto split: if_splits sum.splits)
    from Cons.IH [OF this] show ?thesis by auto
  qed
qed

lemma run_rest_all: "run_rest c False prev xs = Inr n \<Longrightarrow> n = length xs"
proof (induction xs arbitrary: prev n)
  case Nil
  then show ?case by simp
next
  case (Cons a xs)
  then show ?case
    by (auto split: sum.splits if_splits dest: sort_compare_nonneg)
qed

lemma count_and_make_run_mset:
  "count_and_make_run c xs = Inr (run, rest) \<Longrightarrow> mset run + mset rest = mset xs"
proof (induction c xs rule: count_and_make_run.induct)
  case (1 c high low ys)
  show ?case
  proof (cases "sort_compare c low high")
    case (Inl e)
    with "1.prems" show ?thesis by simp
  next
    case o: (Inr order)
    show ?thesis
    proof (cases "run_rest c (order < 0) low ys")
      case (Inl e)
      with o "1.prems" show ?thesis by simp
    next
      case (Inr n)
      with o "1.prems" have
        run: "run = (if order < 0 then rev (high # low # take n ys) else high # low # take n ys)"
        and rest: "rest = drop n ys"
        by (simp_all add: Let_def)
      from run have "mset run = mset (high # low # take n ys)"
        by (simp split: if_splits)
      with rest have "mset run + mset rest = mset (high # low # (take n ys @ drop n ys))"
        by (simp only: mset.simps mset_append) simp
      then show ?thesis by simp
    qed
  qed
qed auto

lemma count_and_make_run_fault:
  "count_and_make_run c xs = Inl e \<Longrightarrow> \<exists>x \<in> set xs. \<exists>y \<in> set xs. c x y = Inl e"
proof (induction c xs rule: count_and_make_run.induct)
  case (1 c high low ys)
  show ?case
  proof (cases "sort_compare c low high")
    case (Inl e')
    with "1.prems" have "c low high = Inl e" by (simp add: sort_compare_Inl)
    then show ?thesis by auto
  next
    case (Inr order)
    with "1.prems" have "run_rest c (order < 0) low ys = Inl e"
      by (auto simp: Let_def split: sum.splits)
    from run_rest_fault [OF this] show ?thesis by auto
  qed
qed auto

lemma binary_search_step:
  "left < right \<Longrightarrow> binary_search c pivot work left right =
     (case sort_compare c pivot (work ! (left + (right - left) div 2)) of
        Inl e \<Rightarrow> Inl e
      | Inr order \<Rightarrow>
          if order < 0 then binary_search c pivot work left (left + (right - left) div 2)
          else binary_search c pivot work (left + (right - left) div 2 + 1) right)"
  by (subst binary_search.simps) (simp add: Let_def)

lemma binary_search_stop: "\<not> left < right \<Longrightarrow> binary_search c pivot work left right = Inr left"
  by (subst binary_search.simps) simp

lemma binary_search_fault:
  "binary_search c pivot work left right = Inl e \<Longrightarrow> right \<le> length work
   \<Longrightarrow> \<exists>y \<in> set work. c pivot y = Inl e"
proof (induction c pivot work left right rule: binary_search.induct)
  case (1 c pivot work left right)
  show ?case
  proof (cases "left < right")
    case False
    with "1.prems" show ?thesis by (simp add: binary_search_stop)
  next
    case True
    define mid where "mid = left + (right - left) div 2"
    from True have mid: "left \<le> mid" "mid < right" by (auto simp: mid_def)
    note step = binary_search_step [OF True, of c pivot work, folded mid_def]
    show ?thesis
    proof (cases "sort_compare c pivot (work ! mid)")
      case (Inl e')
      with "1.prems"(1) step have "e' = e" by simp
      with Inl have "c pivot (work ! mid) = Inl e" by (simp add: sort_compare_Inl)
      moreover have "work ! mid \<in> set work" using mid "1.prems"(2) by simp
      ultimately show ?thesis by blast
    next
      case (Inr order)
      show ?thesis
      proof (cases "order < 0")
        case neg: True
        with "1.prems"(1) step Inr have "binary_search c pivot work left mid = Inl e" by simp
        from "1.IH"(1) [OF True mid_def Inr neg this] mid "1.prems"(2)
        show ?thesis by simp
      next
        case pos: False
        with "1.prems"(1) step Inr have "binary_search c pivot work (mid + 1) right = Inl e" by simp
        from "1.IH"(2) [OF True mid_def Inr pos this] mid "1.prems"(2)
        show ?thesis by simp
      qed
    qed
  qed
qed

lemma insert_all_mset: "insert_all c work rest = Inr ys \<Longrightarrow> mset ys = mset work + mset rest"
proof (induction rest arbitrary: work)
  case Nil
  then show ?case by simp
next
  case (Cons pivot rest)
  from Cons.prems obtain left where
    r: "insert_all c (take left work @ pivot # drop left work) rest = Inr ys"
    by (auto split: sum.splits)
  have "mset (take left work @ pivot # drop left work) = add_mset pivot (mset (take left work @ drop left work))"
    by (simp only: mset_append mset.simps) simp
  with Cons.IH [OF r] show ?case by simp
qed

lemma set_insert_at: "set (take n xs @ p # drop n xs) = insert p (set xs)"
proof -
  have "set (take n xs) \<union> set (drop n xs) = set (take n xs @ drop n xs)" by (simp only: set_append)
  then have "set (take n xs) \<union> set (drop n xs) = set xs" by simp
  then show ?thesis by auto
qed

lemma insert_all_fault:
  "insert_all c work rest = Inl e
   \<Longrightarrow> \<exists>x \<in> set work \<union> set rest. \<exists>y \<in> set work \<union> set rest. c x y = Inl e"
proof (induction rest arbitrary: work)
  case Nil
  then show ?case by simp
next
  case (Cons pivot rest)
  show ?case
  proof (cases "binary_search c pivot work 0 (length work)")
    case (Inl e')
    with Cons.prems have "binary_search c pivot work 0 (length work) = Inl e" by simp
    from binary_search_fault [OF this] show ?thesis by auto
  next
    case (Inr left)
    with Cons.prems have "insert_all c (take left work @ pivot # drop left work) rest = Inl e"
      by simp
    from Cons.IH [OF this] obtain x y where
      "x \<in> insert pivot (set work) \<union> set rest" "y \<in> insert pivot (set work) \<union> set rest"
      "c x y = Inl e"
      unfolding set_insert_at by blast
    then have "x \<in> set work \<union> set (pivot # rest)" "y \<in> set work \<union> set (pivot # rest)"
      by auto
    with \<open>c x y = Inl e\<close> show ?thesis by blast
  qed
qed

lemma v8_sort_conforming: "conforming v8_sort"
  unfolding conforming_def
proof (intro allI)
  fix c xs
  show "case v8_sort c xs of
          Inr ys \<Rightarrow> mset ys = mset xs
        | Inl e \<Rightarrow> \<exists>x \<in> set xs. \<exists>y \<in> set xs. c x y = Inl e"
  proof (cases "length xs < 2")
    case True
    then show ?thesis by (simp add: v8_sort_def)
  next
    case False
    show ?thesis
    proof (cases "count_and_make_run c xs")
      case (Inl e)
      with False count_and_make_run_fault [OF Inl] show ?thesis by (simp add: v8_sort_def)
    next
      case (Inr p)
      obtain run rest where p: "p = (run, rest)" by (cases p)
      from Inr p have m: "mset run + mset rest = mset xs" by (simp add: count_and_make_run_mset)
      then have s: "set run \<union> set rest = set xs" by (metis set_mset_mset set_mset_union)
      show ?thesis
      proof (cases "insert_all c run rest")
        case (Inl e)
        from insert_all_fault [OF Inl] s Inr p Inl False show ?thesis by (simp add: v8_sort_def)
      next
        case (Inr ys)
        from insert_all_mset [OF Inr] m \<open>count_and_make_run c xs = Inr p\<close> p Inr False
        show ?thesis by (simp add: v8_sort_def)
      qed
    qed
  qed
qed

lemma v8_sort_keeps_order: "v8_sort c xs = Inr ys \<Longrightarrow> ys = xs"
proof (induction c xs rule: count_and_make_run.induct)
  case (1 c high low zs)
  show ?case
  proof (cases "sort_compare c low high")
    case (Inl e)
    with "1.prems" show ?thesis by (simp add: v8_sort_def)
  next
    case o: (Inr order)
    then have no: "\<not> order < 0" using sort_compare_nonneg by fastforce
    show ?thesis
    proof (cases "run_rest c False low zs")
      case (Inl e)
      with o no "1.prems" show ?thesis by (simp add: v8_sort_def)
    next
      case (Inr n)
      then have "n = length zs" by (simp add: run_rest_all)
      with Inr o no "1.prems" show ?thesis by (simp add: v8_sort_def)
    qed
  qed
qed (simp_all add: v8_sort_def)

lemma show_nat_zero: "show_nat 0 = ''0''"
  by code_simp

lemma find_zero: "List.find (\<lambda>i. show_nat i = ''0'') [0..<Suc m] = Some 0"
  by (subst upt_conv_Cons) (simp_all add: show_nat_zero del: upt_Suc)

lemma elem_at_zero: "elem_at xs ''0'' = (case xs of [] \<Rightarrow> None | x # rest \<Rightarrow> Some x)"
proof (cases xs)
  case Nil
  then show ?thesis by (simp add: elem_at_def)
next
  case (Cons x rest)
  then have "elem_at xs ''0'' = map_option (\<lambda>i. xs ! i) (List.find (\<lambda>i. show_nat i = ''0'') [0..<Suc (length rest)])"
    by (simp add: elem_at_def del: upt_Suc)
  with Cons show ?thesis by (simp only: find_zero) simp
qed

lemma derived_remote_record:
  assumes "remote_record node"
  shows "\<exists>n u cnt es.
           field_of ''name'' node = Str n
         \<and> field_of ''url'' node = Str u
         \<and> field_of ''totalCount'' (field_of ''stargazers'' node) = Num cnt
         \<and> release_list node = Some es
         \<and> list_all release_edge es
         \<and> derived ROUTE_PORTS node =
             Inr [(''gitHubRepositoryUrl'', Str u),
                  (''stargazers'', Obj [(''count'', Num cnt), (''url'', Str (u @ ''/stargazers''))]),
                  (''releaseLatest'', (case es of [] \<Rightarrow> Undefined | e # rest \<Rightarrow> field_of ''node'' e)),
                  (''url'', Str (ROUTE_PORTS @ ''/'' @ replace_nord n))]"
proof -
  from assms obtain kvs where node: "node = Obj kvs"
    by (auto simp: remote_record_def split: jsval.splits)
  from assms node obtain n where n: "field kvs ''name'' = Str n"
    by (auto simp: remote_record_def split: jsval.splits)
  from assms node obtain u where u: "field kvs ''url'' = Str u"
    by (auto simp: remote_record_def split: jsval.splits)
  from assms node obtain sg cnt where sg: "field kvs ''stargazers'' = Obj sg"
    and cnt: "field sg ''totalCount'' = Num cnt"
    by (auto simp: remote_record_def split: jsval.splits)
  from assms node obtain es where es: "release_list node = Some es" and edges: "list_all release_edge es"
    by (auto simp: remote_record_def split: jsval.splits option.splits)
  from es node obtain rel where rel: "field kvs ''releases'' = Obj rel" and rel_es: "field rel ''edges'' = Arr es"
    by (auto simp: release_list_def field_of_def split: jsval.splits)
  have latest: "(if is_nullish (case elem_at es ''0'' of None \<Rightarrow> Undefined | Some v \<Rightarrow> v) then Inr Undefined
                else read_prop (case elem_at es ''0'' of None \<Rightarrow> Undefined | Some v \<Rightarrow> v) ''node'')
              = Inr (case es of [] \<Rightarrow> Undefined | e # rest \<Rightarrow> field_of ''node'' e)"
  proof (cases es)
    case Nil
    then show ?thesis by (simp add: elem_at_zero is_nullish_def)
  next
    case (Cons e rest)
    with edges obtain ekv where "e = Obj ekv"
      by (auto simp: release_edge_def split: jsval.splits)
    with Cons show ?thesis by (simp add: elem_at_zero is_nullish_def field_of_def)
  qed
  have "derived ROUTE_PORTS node =
             Inr [(''gitHubRepositoryUrl'', Str u),
                  (''stargazers'', Obj [(''count'', Num cnt), (''url'', Str (u @ ''/stargazers''))]),
                  (''releaseLatest'', (case es of [] \<Rightarrow> Undefined | e # rest \<Rightarrow> field_of ''node'' e)),
                  (''url'', Str (ROUTE_PORTS @ ''/'' @ replace_nord n))]"
    unfolding derived_def node using n u sg cnt rel rel_es latest by simp
  with node n u sg cnt es edges show ?thesis by (simp add: field_of_def)
qed

lemma derived_keys:
  "derived ROUTE_PORTS node = Inr fields
   \<Longrightarrow> map fst fields = [''gitHubRepositoryUrl'', ''stargazers'', ''releaseLatest'', ''url'']"
  by (auto simp: derived_def and_then_eq_Inr)

lemma map_of_filter_keys:
  "map_of (filter (\<lambda>(k, v). P k) kvs) k = (if P k then map_of kvs k else None)"
  by (induction kvs) auto

lemma field_filter_keys:
  "field (filter (\<lambda>(k, v). P k) kvs) k = (if P k then field kvs k else Undefined)"
  by (simp add: field_def rev_filter map_of_filter_keys)

lemma has_key_filter_keys:
  "has_key k (filter (\<lambda>(k, v). P k) kvs) = (has_key k kvs \<and> P k)"
  by (auto simp: has_key_def)

lemma has_key_ghRepoData:
  "has_key k (ghRepoData node) = (has_key k (own_props node) \<and> k \<notin> set [''releases'', ''stargazers'', ''url''])"
  unfolding ghRepoData_def by (rule has_key_filter_keys)

lemma field_ghRepoData:
  "field (ghRepoData node) k =
     (if k \<in> set [''releases'', ''stargazers'', ''url''] then Undefined else field_of k node)"
  unfolding ghRepoData_def field_of_def by (simp only: field_filter_keys) simp

lemma mergePort_matched:
  "find_edge idProperty port edges = Inr gh \<Longrightarrow> read_prop gh ''node'' = Inr node
   \<Longrightarrow> derived ROUTE_PORTS node = Inr fields
   \<Longrightarrow> mergePort ROUTE_PORTS idProperty edges port = Inr (Obj (fields @ ghRepoData node @ own_props port))"
  by (simp add: mergePort_def)

lemma mergePort_Inr:
  "mergePort ROUTE_PORTS idProperty edges port = Inr md
   \<Longrightarrow> \<exists>gh node fields. find_edge idProperty port edges = Inr gh \<and> read_prop gh ''node'' = Inr node
        \<and> derived ROUTE_PORTS node = Inr fields \<and> md = Obj (fields @ ghRepoData node @ own_props port)"
  by (auto simp: mergePort_def and_then_eq_Inr)

lemma conforming_Inr: "conforming host_sort \<Longrightarrow> host_sort c xs = Inr ys \<Longrightarrow> mset ys = mset xs"
  unfolding conforming_def by (erule allE [of _ c], erule allE [of _ xs]) simp

lemma conforming_Inl:
  "conforming host_sort \<Longrightarrow> host_sort c xs = Inl e \<Longrightarrow> \<exists>x \<in> set xs. \<exists>y \<in> set xs. c x y = Inl e"
  unfolding conforming_def by (erule allE [of _ c], erule allE [of _ xs]) simp

lemma js_lt_Num: "js_lt (Num a) (Num b) = Inr (a < b)"
  by (simp add: js_lt_def to_primitive_def)

lemma by_stars_Num:
  "field k1 ''stargazers'' = Obj s1 \<Longrightarrow> field s1 ''count'' = Num a
   \<Longrightarrow> field k2 ''stargazers'' = Obj s2 \<Longrightarrow> field s2 ''count'' = Num b
   \<Longrightarrow> by_stars (Obj k1) (Obj k2) = Inr (a < b)"
  by (simp add: by_stars_def js_lt_Num)

lemma derived_stargazers:
  "derived ROUTE_PORTS node = Inr fields
   \<Longrightarrow> \<exists>c u. field fields ''stargazers'' = Obj [(''count'', c), (''url'', Str u)]"
  by (auto simp: derived_def and_then_eq_Inr field_def)

lemma covered_merges:
  assumes "covered idProperty edges port" and "\<not> has_key ''stargazers'' (own_props port)"
  shows "\<exists>kvs s a. mergePort ROUTE_PORTS idProperty edges port = Inr (Obj kvs)
                 \<and> field kvs ''stargazers'' = Obj s \<and> field s ''count'' = Num a"
proof -
  from assms(1) obtain gh node where f: "find_edge idProperty port edges = Inr gh"
    and n: "read_prop gh ''node'' = Inr node" and r: "remote_record node"
    by (auto simp: covered_def split: sum.splits)
  from derived_remote_record [OF r, of ROUTE_PORTS] obtain fields cnt u where
    d: "derived ROUTE_PORTS node = Inr fields"
    and s: "field fields ''stargazers'' = Obj [(''count'', Num cnt), (''url'', Str u)]"
    by (auto simp: field_def)
  have "field (fields @ ghRepoData node @ own_props port) ''stargazers''
          = Obj [(''count'', Num cnt), (''url'', Str u)]"
    using assms(2) s by (simp add: field_append has_key_append has_key_ghRepoData)
  moreover have "field [(''count'', Num cnt), (''url'', Str u)] ''count'' = Num cnt"
    by (simp add: field_def)
  ultimately show ?thesis using mergePort_matched [OF f n d] by blast
qed

lemma find_edge_matches:
  "find_edge idProperty port edges = Inr gh \<Longrightarrow> read_prop gh ''node'' = Inr node
   \<Longrightarrow> id_matches idProperty port gh = Inr True"
proof (induction edges)
  case Nil
  then show ?case by simp
next
  case (Cons e edges)
  show ?case
  proof (cases "id_matches idProperty port e")
    case (Inl err)
    with Cons.prems show ?thesis by simp
  next
    case (Inr b)
    show ?thesis
    proof (cases b)
      case True
      with Inr Cons.prems show ?thesis by simp
    next
      case False
      with Inr Cons.prems Cons.IH show ?thesis by simp
    qed
  qed
qed

lemma strict_eq_same: "strict_eq a b \<Longrightarrow> a = b"
  by (cases a; cases b) simp_all

lemma id_matches_same_value:
  assumes "id_matches idProperty port gh = Inr True" and "read_prop gh ''node'' = Inr (Obj kvs)"
  shows "read_prop port idProperty = Inr (field kvs idProperty)"
proof -
  from assms obtain b where "read_prop port idProperty = Inr b" "strict_eq (field kvs idProperty) b"
    by (auto simp: id_matches_def and_then_eq_Inr)
  then show ?thesis using strict_eq_same [of "field kvs idProperty" b] by simp
qed

section \<open>The claims\<close>

text \<open>
  Claim C1: the output is ordered descending by stargazer count, the order coming from a
  strict less-than whose boolean result is handed to \<open>sort\<close> as it is.

  The comparator is as the claim says, and the order is what line 97 is after, but a
  boolean is never negative: V8 reads every answer as "equal" or "greater", finds the whole
  array to be one ascending run and returns it as it was (\<open>v8_sort_keeps_order\<close>). The
  static list names \<open>nord-tmux\<close> (5 stars) before \<open>nord-vim\<close> (20 stars); the output keeps
  that order, which is not descending.
\<close>

theorem C1_v8_leaves_static_order:
  "usePortsMetadata v8_sort ''/ports'' ''name''
     [nord_vim_edge, nord_tmux_edge] [tmux_port, vim_port]
   = Inr [Obj [(''gitHubRepositoryUrl'', Str ''gh/nord-tmux''),
            (''stargazers'', Obj [(''count'', Num 5), (''url'', Str ''gh/nord-tmux/stargazers'')]),
            (''releaseLatest'', Undefined), (''url'', Str ''/ports/tmux''),
            (''id'', Str ''R2''), (''name'', Str ''nord-tmux''), (''name'', Str ''nord-tmux''), (''title'', Str ''tmux'')],
          Obj [(''gitHubRepositoryUrl'', Str ''gh/nord-vim''),
            (''stargazers'', Obj [(''count'', Num 20), (''url'', Str ''gh/nord-vim/stargazers'')]),
            (''releaseLatest'', Obj [(''name'', Str ''v0.19.0'')]), (''url'', Str ''/ports/vim''),
            (''id'', Str ''R1''), (''name'', Str ''nord-vim''), (''name'', Str ''nord-vim''), (''title'', Str ''Vim'')]]
   \<and> \<not> descending_by_stars
         [Obj [(''gitHubRepositoryUrl'', Str ''gh/nord-tmux''),
            (''stargazers'', Obj [(''count'', Num 5), (''url'', Str ''gh/nord-tmux/stargazers'')]),
            (''releaseLatest'', Undefined), (''url'', Str ''/ports/tmux''),
            (''id'', Str ''R2''), (''name'', Str ''nord-tmux''), (''name'', Str ''nord-tmux''), (''title'', Str ''tmux'')],
          Obj [(''gitHubRepositoryUrl'', Str ''gh/nord-vim''),
            (''stargazers'', Obj [(''count'', Num 20), (''url'', Str ''gh/nord-vim/stargazers'')]),
            (''releaseLatest'', Obj [(''name'', Str ''v0.19.0'')]), (''url'', Str ''/ports/vim''),
            (''id'', Str ''R1''), (''name'', Str ''nord-vim''), (''name'', Str ''nord-vim''), (''title'', Str ''Vim'')]]"
  by code_simp

text \<open>
  Claim C2: a static record whose \<open>idProperty\<close> value has no counterpart among the remote
  records makes the merge fail with an uncaught fault, the dereference of the lookup
  result; the record is not left out and nothing stands in for it.

  When the callback of \<open>find\<close> answers \<open>false\<close> on every edge, \<open>find\<close> returns
  \<open>undefined\<close>, \<open>gh.node\<close> raises the TypeError, and the hook returns no list at all.
\<close>

theorem C2_missing_match_faults:
  assumes "port \<in> set projectPorts"
    and "\<forall>ghRepo \<in> set edges. id_matches idProperty port ghRepo = Inr False"
  shows "mergePort ROUTE_PORTS idProperty edges port = Inl (CannotReadProperty ''node'')
       \<and> (\<exists>e. usePortsMetadata host_sort ROUTE_PORTS idProperty edges projectPorts = Inl e)"
proof -
  have "find_edge idProperty port edges = Inr Undefined"
    using assms(2) by (simp add: find_edge_none)
  then have m: "mergePort ROUTE_PORTS idProperty edges port = Inl (CannotReadProperty ''node'')"
    by (simp add: mergePort_def)
  obtain e where "merged ROUTE_PORTS idProperty edges projectPorts = Inl e"
    unfolding merged_def using map_result_fault [where f = "mergePort ROUTE_PORTS idProperty edges", OF assms(1) m]
    by blast
  then show ?thesis using m by (auto simp: usePortsMetadata_def)
qed

theorem C2_missing_match_faults_witness:
  "mergePort ''/ports'' ''name'' [nord_tmux_edge] vim_port = Inl (CannotReadProperty ''node'')
   \<and> (\<exists>e. usePortsMetadata v8_sort ''/ports'' ''name'' [nord_tmux_edge] [tmux_port, vim_port] = Inl e)"
proof -
  have h1: "vim_port \<in> set [tmux_port, vim_port]"
    by simp
  have h2: "\<forall>ghRepo \<in> set [nord_tmux_edge]. id_matches ''name'' vim_port ghRepo = Inr False"
    by code_simp
  show ?thesis by (rule C2_missing_match_faults [OF h1 h2])
qed

text \<open>
  Claim C3: for a static record with a matching remote record, the merged record is the
  four derived fields (\<open>gitHubRepositoryUrl\<close>, \<open>stargazers\<close>, \<open>releaseLatest\<close>, \<open>url\<close>)
  overlaid by the remaining remote fields, overlaid by the static record's fields; on a
  key collision the later source wins, so a static field always wins.
\<close>

theorem C3_merged_record_overlay:
  assumes "find_edge idProperty port edges = Inr gh"
    and "read_prop gh ''node'' = Inr node"
    and "remote_record node"
  shows "\<exists>fields. derived ROUTE_PORTS node = Inr fields
       \<and> map fst fields = [''gitHubRepositoryUrl'', ''stargazers'', ''releaseLatest'', ''url'']
       \<and> mergePort ROUTE_PORTS idProperty edges port
           = Inr (Obj (fields @ ghRepoData node @ own_props port))
       \<and> (\<forall>k. result_field k (mergePort ROUTE_PORTS idProperty edges port) =
              Inr (if has_key k (own_props port) then field_of k port
                   else if has_key k (ghRepoData node) then field (ghRepoData node) k
                   else field fields k))"
proof -
  from derived_remote_record [OF assms(3)] obtain fields where d: "derived ROUTE_PORTS node = Inr fields"
    by blast
  note m = mergePort_matched [OF assms(1,2) d]
  have r: "\<forall>k. result_field k (mergePort ROUTE_PORTS idProperty edges port) =
              Inr (if has_key k (own_props port) then field_of k port
                   else if has_key k (ghRepoData node) then field (ghRepoData node) k
                   else field fields k)"
    by (simp add: m result_field_def field_append has_key_append field_of_def)
  show ?thesis
  proof (intro exI conjI)
    show "derived ROUTE_PORTS node = Inr fields" by (rule d)
    show "map fst fields = [''gitHubRepositoryUrl'', ''stargazers'', ''releaseLatest'', ''url'']"
      by (rule derived_keys [OF d])
    show "mergePort ROUTE_PORTS idProperty edges port
           = Inr (Obj (fields @ ghRepoData node @ own_props port))" by (rule m)
    show "\<forall>k. result_field k (mergePort ROUTE_PORTS idProperty edges port) =
              Inr (if has_key k (own_props port) then field_of k port
                   else if has_key k (ghRepoData node) then field (ghRepoData node) k
                   else field fields k)" by (rule r)
  qed
qed

theorem C3_merged_record_overlay_witness:
  "result_field ''title'' (mergePort ''/ports'' ''name'' [nord_vim_edge] vim_port) = Inr (Str ''Vim'')"
proof -
  have h1: "find_edge ''name'' vim_port [nord_vim_edge] = Inr nord_vim_edge"
    by code_simp
  have h2: "read_prop nord_vim_edge ''node'' = Inr nord_vim"
    by code_simp
  have h3: "remote_record nord_vim"
    by code_simp
  have h4: "has_key ''title'' (own_props vim_port)"
    by code_simp
  have h5: "field_of ''title'' vim_port = Str ''Vim''"
    by code_simp
  from C3_merged_record_overlay [OF h1 h2 h3, where ROUTE_PORTS = "''/ports''"]
  obtain fields where "\<forall>k. result_field k (mergePort ''/ports'' ''name'' [nord_vim_edge] vim_port) =
      Inr (if has_key k (own_props vim_port) then field_of k vim_port
           else if has_key k (ghRepoData nord_vim) then field (ghRepoData nord_vim) k
           else field fields k)"
    by blast
  then have "result_field ''title'' (mergePort ''/ports'' ''name'' [nord_vim_edge] vim_port) =
      Inr (if has_key ''title'' (own_props vim_port) then field_of ''title'' vim_port
           else if has_key ''title'' (ghRepoData nord_vim) then field (ghRepoData nord_vim) ''title''
           else field fields ''title'')"
    by (rule spec)
  with h4 h5 show ?thesis by (simp only: if_True)
qed

text \<open>
  Claim C4: the pass-through fields are the remote record's fields with the release list,
  the stargazer total, the canonical URL and also the identifying field removed.

  Line 87 takes three names out, \<open>releases\<close>, \<open>stargazers\<close> and \<open>url\<close>; the identifying
  field stays among the pass-through fields (and the static record's equal value is
  written over it afterwards). With \<open>idProperty = "name"\<close> the pass-through fields of the
  node below still hold \<open>name\<close>.
\<close>

theorem C4_identifying_field_kept:
  "has_key ''name'' (ghRepoData nord_vim)
   \<and> ghRepoData nord_vim
     \<noteq> pass_through_as_claimed ''name'' nord_vim"
  by code_simp

text \<open>
  Claim C4 as amended: the pass-through fields used in the merge are the remote record's
  fields without \<open>releases\<close>, \<open>stargazers\<close> and \<open>url\<close>, each with the remote value; an
  identifying field other than those three stays among them. The matched static record
  reads the same identifying value as the remote record, and in the merged record a
  static field of that name is written over the pass-through one.
\<close>

theorem C4_pass_through_fields:
  "has_key k (ghRepoData node)
     = (has_key k (own_props node) \<and> k \<notin> set [''releases'', ''stargazers'', ''url''])
   \<and> field (ghRepoData node) k
     = (if k \<in> set [''releases'', ''stargazers'', ''url''] then Undefined else field_of k node)
   \<and> (idProperty \<notin> set [''releases'', ''stargazers'', ''url'']
        \<longrightarrow> has_key idProperty (own_props node) \<longrightarrow> has_key idProperty (ghRepoData node))
   \<and> (find_edge idProperty port edges = Inr gh \<and> read_prop gh ''node'' = Inr node
        \<and> remote_record node
        \<longrightarrow> (\<exists>fields. derived ROUTE_PORTS node = Inr fields
                \<and> mergePort ROUTE_PORTS idProperty edges port
                    = Inr (Obj (fields @ ghRepoData node @ own_props port)))
          \<and> read_prop port idProperty = Inr (field_of idProperty node)
          \<and> (has_key idProperty (own_props port) \<longrightarrow>
                result_field idProperty (mergePort ROUTE_PORTS idProperty edges port)
                  = Inr (field_of idProperty port)))"
proof -
  have a: "has_key k (ghRepoData node)
     = (has_key k (own_props node) \<and> k \<notin> set [''releases'', ''stargazers'', ''url''])"
    by (rule has_key_ghRepoData)
  have b: "field (ghRepoData node) k
     = (if k \<in> set [''releases'', ''stargazers'', ''url''] then Undefined else field_of k node)"
    by (rule field_ghRepoData)
  have c: "idProperty \<notin> set [''releases'', ''stargazers'', ''url'']
        \<longrightarrow> has_key idProperty (own_props node) \<longrightarrow> has_key idProperty (ghRepoData node)"
    using has_key_ghRepoData [of idProperty node] by simp
  have d: "(\<exists>fields. derived ROUTE_PORTS node = Inr fields
                \<and> mergePort ROUTE_PORTS idProperty edges port
                    = Inr (Obj (fields @ ghRepoData node @ own_props port)))
          \<and> read_prop port idProperty = Inr (field_of idProperty node)
          \<and> (has_key idProperty (own_props port) \<longrightarrow>
                result_field idProperty (mergePort ROUTE_PORTS idProperty edges port)
                  = Inr (field_of idProperty port))"
    if f: "find_edge idProperty port edges = Inr gh" and n: "read_prop gh ''node'' = Inr node"
      and r: "remote_record node"
  proof -
    from derived_remote_record [OF r, of ROUTE_PORTS] obtain fields where
      dv: "derived ROUTE_PORTS node = Inr fields" by blast
    note m = mergePort_matched [OF f n dv]
    from r obtain kvs where kvs: "node = Obj kvs"
      by (auto simp: remote_record_def split: jsval.splits)
    from find_edge_matches [OF f n] have "id_matches idProperty port gh = Inr True" .
    from id_matches_same_value [OF this n [unfolded kvs]]
    have same: "read_prop port idProperty = Inr (field_of idProperty node)"
      by (simp add: kvs field_of_def)
    have over: "result_field idProperty (mergePort ROUTE_PORTS idProperty edges port)
                  = Inr (field_of idProperty port)"
      if "has_key idProperty (own_props port)"
      using that by (simp add: m result_field_def field_append has_key_append field_of_def)
    from dv m same over show ?thesis by blast
  qed
  from a b c d show ?thesis by blast
qed

theorem C4_pass_through_fields_witness:
  "has_key ''name'' (ghRepoData nord_vim)
   \<and> read_prop vim_port ''name'' = Inr (field_of ''name'' nord_vim)
   \<and> result_field ''name'' (mergePort ''/ports'' ''name'' [nord_vim_edge] vim_port)
       = Inr (field_of ''name'' vim_port)"
proof -
  have h1: "''name'' \<notin> set [''releases'', ''stargazers'', ''url'']"
    by simp
  have h2: "has_key ''name'' (own_props nord_vim)"
    by code_simp
  have h3: "find_edge ''name'' vim_port [nord_vim_edge] = Inr nord_vim_edge"
    by code_simp
  have h4: "read_prop nord_vim_edge ''node'' = Inr nord_vim"
    by code_simp
  have h5: "remote_record nord_vim"
    by code_simp
  have h6: "has_key ''name'' (own_props vim_port)"
    by code_simp
  from C4_pass_through_fields [where k = "''name''" and idProperty = "''name''"
      and node = nord_vim and port = vim_port and edges = "[nord_vim_edge]"
      and gh = nord_vim_edge and ROUTE_PORTS = "''/ports''"] h1 h2 h3 h4 h5 h6
  show ?thesis by blast
qed

text \<open>
  Claim C5: every record of the output holds \<open>gitHubRepositoryUrl\<close>, \<open>stargazers.count\<close>,
  \<open>stargazers.url\<close>, \<open>url\<close> and all fields of its static record, whichever field names
  the static records define.

  The static fields are written last, so a static record that defines \<open>stargazers\<close> itself
  replaces the derived object: below the output record's \<open>stargazers\<close> is the string
  \<open>"many"\<close>, which has no \<open>count\<close>.
\<close>

theorem C5_static_stargazers_hides_count:
  "usePortsMetadata v8_sort ''/ports'' ''name'' [nord_vim_edge] [Obj [(''name'', Str ''nord-vim''), (''stargazers'', Str ''many'')]]
   = Inr [Obj [(''gitHubRepositoryUrl'', Str ''gh/nord-vim''),
            (''stargazers'', Obj [(''count'', Num 20), (''url'', Str ''gh/nord-vim/stargazers'')]),
            (''releaseLatest'', Obj [(''name'', Str ''v0.19.0'')]), (''url'', Str ''/ports/vim''),
            (''id'', Str ''R1''), (''name'', Str ''nord-vim''), (''name'', Str ''nord-vim''), (''stargazers'', Str ''many'')]]
   \<and> \<not> has_path (Obj [(''gitHubRepositoryUrl'', Str ''gh/nord-vim''),
            (''stargazers'', Obj [(''count'', Num 20), (''url'', Str ''gh/nord-vim/stargazers'')]),
            (''releaseLatest'', Obj [(''name'', Str ''v0.19.0'')]), (''url'', Str ''/ports/vim''),
            (''id'', Str ''R1''), (''name'', Str ''nord-vim''), (''name'', Str ''nord-vim''), (''stargazers'', Str ''many'')]) [''stargazers'', ''count'']"
  by code_simp

text \<open>
  Claim C5 as amended: every record of the output is the merge of one of the static
  records; it holds \<open>gitHubRepositoryUrl\<close>, \<open>stargazers\<close>, \<open>url\<close> and every field of that
  static record with the static value; it holds \<open>stargazers.count\<close> and \<open>stargazers.url\<close>
  when that static record defines no field named \<open>stargazers\<close>.
\<close>

theorem C5_output_record_fields:
  assumes "conforming host_sort"
    and "usePortsMetadata host_sort ROUTE_PORTS idProperty edges projectPorts = Inr out"
    and "md \<in> set out"
  shows "\<exists>port \<in> set projectPorts.
           mergePort ROUTE_PORTS idProperty edges port = Inr md
         \<and> has_key ''gitHubRepositoryUrl'' (own_props md)
         \<and> has_key ''stargazers'' (own_props md)
         \<and> has_key ''url'' (own_props md)
         \<and> (\<forall>k. has_key k (own_props port) \<longrightarrow>
               has_key k (own_props md) \<and> field_of k md = field_of k port)
         \<and> (\<not> has_key ''stargazers'' (own_props port) \<longrightarrow>
               has_path md [''stargazers'', ''count''] \<and> has_path md [''stargazers'', ''url''])"
proof -
  from assms(2) obtain ms where ms: "merged ROUTE_PORTS idProperty edges projectPorts = Inr ms"
    and out: "host_sort by_stars ms = Inr out"
    by (auto simp: usePortsMetadata_def and_then_eq_Inr)
  from conforming_Inr [OF assms(1) out] have "set out = set ms" by (rule mset_eq_setD)
  with assms(3) have "md \<in> set ms" by simp
  from map_result_elems [OF ms [unfolded merged_def] this] obtain port where
    port: "port \<in> set projectPorts" and m: "mergePort ROUTE_PORTS idProperty edges port = Inr md"
    by blast
  from mergePort_Inr [OF m] obtain node fields where
    d: "derived ROUTE_PORTS node = Inr fields"
    and md: "md = Obj (fields @ ghRepoData node @ own_props port)"
    by blast
  from derived_keys [OF d] have keys: "has_key ''gitHubRepositoryUrl'' fields"
    "has_key ''stargazers'' fields" "has_key ''url'' fields"
    by (simp_all add: has_key_def)
  have static: "has_key k (own_props md) \<and> field_of k md = field_of k port"
    if "has_key k (own_props port)" for k
    using that by (simp add: md field_of_def field_append has_key_append)
  have paths: "has_path md [''stargazers'', ''count''] \<and> has_path md [''stargazers'', ''url'']"
    if "\<not> has_key ''stargazers'' (own_props port)"
  proof -
    from derived_stargazers [OF d] obtain c u where
      "field fields ''stargazers'' = Obj [(''count'', c), (''url'', Str u)]" by blast
    with that have "field_of ''stargazers'' md = Obj [(''count'', c), (''url'', Str u)]"
      by (simp add: md field_of_def field_append has_key_append has_key_ghRepoData)
    with keys(2) show ?thesis by (simp add: md has_key_append has_key_def)
  qed
  from port m keys static paths show ?thesis
    by (intro bexI [of _ port]) (simp_all add: md has_key_append)
qed

theorem C5_output_record_fields_witness:
  "has_path (Obj [(''gitHubRepositoryUrl'', Str ''gh/nord-vim''),
            (''stargazers'', Obj [(''count'', Num 20), (''url'', Str ''gh/nord-vim/stargazers'')]),
            (''releaseLatest'', Obj [(''name'', Str ''v0.19.0'')]), (''url'', Str ''/ports/vim''),
            (''id'', Str ''R1''), (''name'', Str ''nord-vim''), (''name'', Str ''nord-vim''), (''title'', Str ''Vim'')]) [''stargazers'', ''count'']
   \<and> has_path (Obj [(''gitHubRepositoryUrl'', Str ''gh/nord-vim''),
            (''stargazers'', Obj [(''count'', Num 20), (''url'', Str ''gh/nord-vim/stargazers'')]),
            (''releaseLatest'', Obj [(''name'', Str ''v0.19.0'')]), (''url'', Str ''/ports/vim''),
            (''id'', Str ''R1''), (''name'', Str ''nord-vim''), (''name'', Str ''nord-vim''), (''title'', Str ''Vim'')]) [''stargazers'', ''url'']"
proof -
  have h2: "usePortsMetadata v8_sort ''/ports'' ''name'' [nord_vim_edge] [vim_port]
              = Inr [Obj [(''gitHubRepositoryUrl'', Str ''gh/nord-vim''),
            (''stargazers'', Obj [(''count'', Num 20), (''url'', Str ''gh/nord-vim/stargazers'')]),
            (''releaseLatest'', Obj [(''name'', Str ''v0.19.0'')]), (''url'', Str ''/ports/vim''),
            (''id'', Str ''R1''), (''name'', Str ''nord-vim''), (''name'', Str ''nord-vim''), (''title'', Str ''Vim'')]]"
    by code_simp
  have h3: "Obj [(''gitHubRepositoryUrl'', Str ''gh/nord-vim''),
            (''stargazers'', Obj [(''count'', Num 20), (''url'', Str ''gh/nord-vim/stargazers'')]),
            (''releaseLatest'', Obj [(''name'', Str ''v0.19.0'')]), (''url'', Str ''/ports/vim''),
            (''id'', Str ''R1''), (''name'', Str ''nord-vim''), (''name'', Str ''nord-vim''), (''title'', Str ''Vim'')] \<in> set [Obj [(''gitHubRepositoryUrl'', Str ''gh/nord-vim''),
            (''stargazers'', Obj [(''count'', Num 20), (''url'', Str ''gh/nord-vim/stargazers'')]),
            (''releaseLatest'', Obj [(''name'', Str ''v0.19.0'')]), (''url'', Str ''/ports/vim''),
            (''id'', Str ''R1''), (''name'', Str ''nord-vim''), (''name'', Str ''nord-vim''), (''title'', Str ''Vim'')]]"
    by simp
  have h4: "\<not> has_key ''stargazers'' (own_props vim_port)"
    by code_simp
  from C5_output_record_fields [OF v8_sort_conforming h2 h3]
  obtain port where p: "port \<in> set [vim_port]"
    and c: "\<not> has_key ''stargazers'' (own_props port) \<longrightarrow>
            has_path (Obj [(''gitHubRepositoryUrl'', Str ''gh/nord-vim''),
            (''stargazers'', Obj [(''count'', Num 20), (''url'', Str ''gh/nord-vim/stargazers'')]),
            (''releaseLatest'', Obj [(''name'', Str ''v0.19.0'')]), (''url'', Str ''/ports/vim''),
            (''id'', Str ''R1''), (''name'', Str ''nord-vim''), (''name'', Str ''nord-vim''), (''title'', Str ''Vim'')]) [''stargazers'', ''count'']
            \<and> has_path (Obj [(''gitHubRepositoryUrl'', Str ''gh/nord-vim''),
            (''stargazers'', Obj [(''count'', Num 20), (''url'', Str ''gh/nord-vim/stargazers'')]),
            (''releaseLatest'', Obj [(''name'', Str ''v0.19.0'')]), (''url'', Str ''/ports/vim''),
            (''id'', Str ''R1''), (''name'', Str ''nord-vim''), (''name'', Str ''nord-vim''), (''title'', Str ''Vim'')]) [''stargazers'', ''url'']"
    by blast
  from p have "port = vim_port" by simp
  with c h4 show ?thesis by blast
qed

text \<open>
  Claim C6: the merged record's \<open>url\<close> is the route base path, a slash, and the remote
  name without a leading \<open>nord-\<close> (\<open>nord-vim\<close> gives \<open>vim\<close>, \<open>tmux\<close> stays \<open>tmux\<close>).

  That is the \<open>url\<close> line 92 writes, but the static fields are written after it: a static
  record with a \<open>url\<close> of its own keeps its own.
\<close>

theorem C6_static_url_wins:
  "result_field ''url'' (mergePort ''/ports'' ''name'' [nord_vim_edge] (Obj [(''name'', Str ''nord-vim''), (''url'', Str ''/vim'')])) = Inr (Str ''/vim'')
   \<and> Str ''/vim'' \<noteq> Str (''/ports'' @ ''/'' @ replace_nord ''nord-vim'')"
  by code_simp

text \<open>
  Claim C6 as amended: the \<open>url\<close> the merge derives is the route base path, a slash, and
  the remote name with \<open>nord-\<close> removed only at its start (\<open>nord-vim\<close> gives \<open>vim\<close>,
  \<open>tmux\<close> stays \<open>tmux\<close>); it is the merged record's \<open>url\<close> when the static record defines
  no \<open>url\<close>.
\<close>

theorem C6_derived_url:
  assumes "find_edge idProperty port edges = Inr gh"
    and "read_prop gh ''node'' = Inr node"
    and "remote_record node"
    and "field_of ''name'' node = Str name"
  shows "\<exists>fields. mergePort ROUTE_PORTS idProperty edges port
                   = Inr (Obj (fields @ ghRepoData node @ own_props port))
       \<and> field fields ''url'' = Str (ROUTE_PORTS @ ''/'' @ replace_nord name)
       \<and> (\<not> has_key ''url'' (own_props port) \<longrightarrow>
            result_field ''url'' (mergePort ROUTE_PORTS idProperty edges port)
              = Inr (Str (ROUTE_PORTS @ ''/'' @ replace_nord name)))
       \<and> (\<forall>rest. name = ''nord-'' @ rest \<longrightarrow> replace_nord name = rest)
       \<and> ((\<forall>rest. name \<noteq> ''nord-'' @ rest) \<longrightarrow> replace_nord name = name)
       \<and> replace_nord ''nord-vim'' = ''vim'' \<and> replace_nord ''tmux'' = ''tmux''"
proof -
  from derived_remote_record [OF assms(3), of ROUTE_PORTS] assms(4) obtain fields where
    d: "derived ROUTE_PORTS node = Inr fields"
    and u: "field fields ''url'' = Str (ROUTE_PORTS @ ''/'' @ replace_nord name)"
    by (auto simp: field_def)
  note m = mergePort_matched [OF assms(1,2) d]
  have "result_field ''url'' (mergePort ROUTE_PORTS idProperty edges port)
              = Inr (Str (ROUTE_PORTS @ ''/'' @ replace_nord name))"
    if "\<not> has_key ''url'' (own_props port)"
    using that u by (simp add: m result_field_def field_append has_key_append has_key_ghRepoData)
  moreover have "replace_nord name = rest" if "name = ''nord-'' @ rest" for rest
    using that by (simp add: replace_nord_def)
  moreover have "replace_nord name = name" if "\<forall>rest. name \<noteq> ''nord-'' @ rest"
  proof -
    have "take 5 name \<noteq> ''nord-''"
    proof
      assume "take 5 name = ''nord-''"
      then have "name = ''nord-'' @ drop 5 name" by (metis append_take_drop_id)
      with that show False by blast
    qed
    then show ?thesis by (simp add: replace_nord_def)
  qed
  moreover have "replace_nord ''nord-vim'' = ''vim''" "replace_nord ''tmux'' = ''tmux''"
    by (simp_all add: replace_nord_def)
  ultimately show ?thesis using m u by blast
qed

theorem C6_derived_url_witness:
  "result_field ''url'' (mergePort ''/ports'' ''name'' [nord_vim_edge] vim_port)
     = Inr (Str (''/ports'' @ ''/'' @ replace_nord ''nord-vim''))"
proof -
  have h1: "find_edge ''name'' vim_port [nord_vim_edge] = Inr nord_vim_edge"
    by code_simp
  have h2: "read_prop nord_vim_edge ''node'' = Inr nord_vim"
    by code_simp
  have h3: "remote_record nord_vim"
    by code_simp
  have h4: "field_of ''name'' nord_vim = Str ''nord-vim''"
    by code_simp
  have h5: "\<not> has_key ''url'' (own_props vim_port)"
    by code_simp
  from C6_derived_url [OF h1 h2 h3 h4, where ROUTE_PORTS = "''/ports''"] h5
  show ?thesis by blast
qed

text \<open>
  Claim C7: the merged record's \<open>releaseLatest\<close> is \<open>undefined\<close> exactly when the remote
  release list is empty, and is the first entry of the list otherwise; an empty list is
  no error.

  That is the \<open>releaseLatest\<close> line 91 writes, but the pass-through and static fields are
  written after it: below the release list is empty and the static record's own
  \<open>releaseLatest\<close> is the merged one.
\<close>

theorem C7_static_release_wins:
  "release_list nord_tmux = Some []
   \<and> result_field ''releaseLatest'' (mergePort ''/ports'' ''name'' [nord_tmux_edge] (Obj [(''name'', Str ''nord-tmux''), (''releaseLatest'', Str ''v0.1.0'')]))
     = Inr (Str ''v0.1.0'')
   \<and> Str ''v0.1.0'' \<noteq> Undefined"
  by code_simp

text \<open>
  Claim C7 as amended: the \<open>releaseLatest\<close> the merge derives is \<open>undefined\<close> exactly when
  the remote release list is empty, and the release of the first entry otherwise; the
  merge succeeds either way; the derived value is the merged record's \<open>releaseLatest\<close>
  when neither a pass-through field nor a static field has that name.
\<close>

theorem C7_derived_release_latest:
  assumes "find_edge idProperty port edges = Inr gh"
    and "read_prop gh ''node'' = Inr node"
    and "remote_record node"
    and "release_list node = Some es"
  shows "\<exists>fields. mergePort ROUTE_PORTS idProperty edges port
                   = Inr (Obj (fields @ ghRepoData node @ own_props port))
       \<and> field fields ''releaseLatest'' = (case es of [] \<Rightarrow> Undefined | e # rest \<Rightarrow> field_of ''node'' e)
       \<and> (field fields ''releaseLatest'' = Undefined \<longleftrightarrow> es = [])
       \<and> (\<not> has_key ''releaseLatest'' (ghRepoData node) \<and> \<not> has_key ''releaseLatest'' (own_props port) \<longrightarrow>
            result_field ''releaseLatest'' (mergePort ROUTE_PORTS idProperty edges port)
              = Inr (case es of [] \<Rightarrow> Undefined | e # rest \<Rightarrow> field_of ''node'' e))"
proof -
  from derived_remote_record [OF assms(3), of ROUTE_PORTS] assms(4) obtain fields where
    d: "derived ROUTE_PORTS node = Inr fields"
    and r: "field fields ''releaseLatest'' = (case es of [] \<Rightarrow> Undefined | e # rest \<Rightarrow> field_of ''node'' e)"
    and e: "list_all release_edge es"
    by (auto simp: field_def)
  note m = mergePort_matched [OF assms(1,2) d]
  have "field fields ''releaseLatest'' = Undefined \<longleftrightarrow> es = []"
  proof (cases es)
    case Nil
    with r show ?thesis by simp
  next
    case (Cons x rest)
    with e have "release_edge x" by simp
    then have "field_of ''node'' x \<noteq> Undefined"
      by (auto simp: release_edge_def field_of_def split: jsval.splits)
    with r Cons show ?thesis by simp
  qed
  moreover have "result_field ''releaseLatest'' (mergePort ROUTE_PORTS idProperty edges port)
              = Inr (case es of [] \<Rightarrow> Undefined | e # rest \<Rightarrow> field_of ''node'' e)"
    if "\<not> has_key ''releaseLatest'' (ghRepoData node) \<and> \<not> has_key ''releaseLatest'' (own_props port)"
    using that r by (simp add: m result_field_def field_append has_key_append)
  ultimately show ?thesis using m r by blast
qed

theorem C7_derived_release_latest_witness:
  "result_field ''releaseLatest'' (mergePort ''/ports'' ''name'' [nord_vim_edge] vim_port)
     = Inr (Obj [(''name'', Str ''v0.19.0'')])"
proof -
  have h1: "find_edge ''name'' vim_port [nord_vim_edge] = Inr nord_vim_edge"
    by code_simp
  have h2: "read_prop nord_vim_edge ''node'' = Inr nord_vim"
    by code_simp
  have h3: "remote_record nord_vim"
    by code_simp
  have h4: "release_list nord_vim = Some [Obj [(''node'', Obj [(''name'', Str ''v0.19.0'')])]]"
    by code_simp
  have h5: "\<not> has_key ''releaseLatest'' (ghRepoData nord_vim)
            \<and> \<not> has_key ''releaseLatest'' (own_props vim_port)"
    by code_simp
  have h6: "field_of ''node'' (Obj [(''node'', Obj [(''name'', Str ''v0.19.0'')])]) = Obj [(''name'', Str ''v0.19.0'')]"
    by code_simp
  from C7_derived_release_latest [OF h1 h2 h3 h4, where ROUTE_PORTS = "''/ports''"] h5
  have "result_field ''releaseLatest'' (mergePort ''/ports'' ''name'' [nord_vim_edge] vim_port)
     = Inr (case [Obj [(''node'', Obj [(''name'', Str ''v0.19.0'')])]] of [] \<Rightarrow> Undefined | e # rest \<Rightarrow> field_of ''node'' e)"
    by blast
  with h6 show ?thesis by (simp only: list.case)
qed

text \<open>
  Claim C8: a static record is merged with the first remote record, in the order of the
  remote sequence, whose \<open>idProperty\<close> field equals its own; a later remote record with
  the same value is ignored.

  \<open>find\<close> returns the first matching edge \<open>gh\<close>, the merged record is built from the
  node of \<open>gh\<close>, and whatever follows the first match (\<open>post\<close>) has no part in the
  result: the merge is the one against the matching edge alone.
\<close>

theorem C8_first_match_wins:
  assumes "\<forall>ghRepo \<in> set pre. id_matches idProperty port ghRepo = Inr False"
    and "id_matches idProperty port gh = Inr True"
    and "read_prop gh ''node'' = Inr node"
    and "remote_record node"
  shows "find_edge idProperty port (pre @ gh # post) = Inr gh
       \<and> (\<exists>fields. derived ROUTE_PORTS node = Inr fields
            \<and> mergePort ROUTE_PORTS idProperty (pre @ gh # post) port
                = Inr (Obj (fields @ ghRepoData node @ own_props port)))
       \<and> mergePort ROUTE_PORTS idProperty (pre @ gh # post) port
         = mergePort ROUTE_PORTS idProperty [gh] port"
proof -
  have f: "find_edge idProperty port (pre @ gh # post) = Inr gh"
    using assms(1,2) by (simp add: find_edge_first)
  have g: "find_edge idProperty port [gh] = Inr gh"
    using assms(2) by simp
  from derived_remote_record [OF assms(4), of ROUTE_PORTS] obtain fields where
    d: "derived ROUTE_PORTS node = Inr fields" by blast
  from mergePort_matched [OF f assms(3) d] mergePort_matched [OF g assms(3) d] f d
  show ?thesis by auto
qed

theorem C8_first_match_wins_witness:
  "find_edge ''name'' vim_port ([nord_tmux_edge] @ nord_vim_edge # [nord_vim_copy_edge]) = Inr nord_vim_edge
   \<and> (\<exists>fields. derived ''/ports'' nord_vim = Inr fields
        \<and> mergePort ''/ports'' ''name'' ([nord_tmux_edge] @ nord_vim_edge # [nord_vim_copy_edge]) vim_port
            = Inr (Obj (fields @ ghRepoData nord_vim @ own_props vim_port)))
   \<and> mergePort ''/ports'' ''name'' ([nord_tmux_edge] @ nord_vim_edge # [nord_vim_copy_edge]) vim_port
     = mergePort ''/ports'' ''name'' [nord_vim_edge] vim_port"
proof -
  have h1: "\<forall>ghRepo \<in> set [nord_tmux_edge]. id_matches ''name'' vim_port ghRepo = Inr False"
    by code_simp
  have h2: "id_matches ''name'' vim_port nord_vim_edge = Inr True"
    by code_simp
  have h3: "read_prop nord_vim_edge ''node'' = Inr nord_vim"
    by code_simp
  have h4: "remote_record nord_vim"
    by code_simp
  show ?thesis by (rule C8_first_match_wins [OF h1 h2 h3 h4])
qed

text \<open>
  Claim C9: for a non-empty static list in which every static record has a matching
  remote record, the output is as long as the static list.

  For every engine whose \<open>sort\<close> keeps the elements: whenever the hook returns a list, it
  has the length of the static list; and it does return one when no static record
  defines a \<open>stargazers\<close> field of its own (the comparator then reads two integers).
\<close>

theorem C9_output_length:
  assumes "conforming host_sort"
    and "projectPorts \<noteq> []"
    and "\<forall>port \<in> set projectPorts. covered idProperty edges port"
  shows "(\<forall>out. usePortsMetadata host_sort ROUTE_PORTS idProperty edges projectPorts = Inr out
            \<longrightarrow> length out = length projectPorts)
       \<and> ((\<forall>port \<in> set projectPorts. \<not> has_key ''stargazers'' (own_props port))
            \<longrightarrow> (\<exists>out. usePortsMetadata host_sort ROUTE_PORTS idProperty edges projectPorts = Inr out
                      \<and> length out = length projectPorts))"
proof -
  have len: "length out = length projectPorts"
    if "usePortsMetadata host_sort ROUTE_PORTS idProperty edges projectPorts = Inr out" for out
  proof -
    from that obtain ms where ms: "merged ROUTE_PORTS idProperty edges projectPorts = Inr ms"
      and out: "host_sort by_stars ms = Inr out"
      by (auto simp: usePortsMetadata_def and_then_eq_Inr)
    from conforming_Inr [OF assms(1) out] have "length out = length ms"
      by (rule mset_eq_length)
    with ms show ?thesis by (simp add: merged_def map_result_length)
  qed
  have "\<exists>out. usePortsMetadata host_sort ROUTE_PORTS idProperty edges projectPorts = Inr out
             \<and> length out = length projectPorts"
    if plain: "\<forall>port \<in> set projectPorts. \<not> has_key ''stargazers'' (own_props port)"
  proof -
    have each: "\<exists>kvs s a. mergePort ROUTE_PORTS idProperty edges port = Inr (Obj kvs)
                 \<and> field kvs ''stargazers'' = Obj s \<and> field s ''count'' = Num a"
      if "port \<in> set projectPorts" for port
      using that assms(3) plain by (intro covered_merges) blast+
    then have "\<exists>ms. map_result (mergePort ROUTE_PORTS idProperty edges) projectPorts = Inr ms"
      by (intro map_result_total) blast
    then obtain ms where ms: "merged ROUTE_PORTS idProperty edges projectPorts = Inr ms"
      by (auto simp: merged_def)
    have ok: "\<exists>b. by_stars x y = Inr b" if "x \<in> set ms" "y \<in> set ms" for x y
    proof -
      from map_result_elems [OF ms [unfolded merged_def] that(1)] each
      obtain k1 s1 a where "x = Obj k1" "field k1 ''stargazers'' = Obj s1" "field s1 ''count'' = Num a"
        by fastforce
      moreover from map_result_elems [OF ms [unfolded merged_def] that(2)] each
      obtain k2 s2 b where "y = Obj k2" "field k2 ''stargazers'' = Obj s2" "field s2 ''count'' = Num b"
        by fastforce
      ultimately show ?thesis by (simp add: by_stars_Num)
    qed
    obtain out where out: "host_sort by_stars ms = Inr out"
    proof (cases "host_sort by_stars ms")
      case (Inl e)
      from conforming_Inl [OF assms(1) Inl] ok show ?thesis by fastforce
    next
      case (Inr out)
      then show ?thesis by (rule that)
    qed
    with ms have u: "usePortsMetadata host_sort ROUTE_PORTS idProperty edges projectPorts = Inr out"
      by (simp add: usePortsMetadata_def)
    with len show ?thesis by blast
  qed
  with len show ?thesis by blast
qed

theorem C9_output_length_witness:
  "\<exists>out. usePortsMetadata v8_sort ''/ports'' ''name'' [nord_vim_edge, nord_tmux_edge] [tmux_port, vim_port] = Inr out
         \<and> length out = length [tmux_port, vim_port]"
proof -
  have h2: "[tmux_port, vim_port] \<noteq> []"
    by simp
  have h3: "\<forall>port \<in> set [tmux_port, vim_port]. covered ''name'' [nord_vim_edge, nord_tmux_edge] port"
    by code_simp
  have h4: "\<forall>port \<in> set [tmux_port, vim_port]. \<not> has_key ''stargazers'' (own_props port)"
    by code_simp
  from C9_output_length [OF v8_sort_conforming h2 h3, where ROUTE_PORTS = "''/ports''"] h4
  show ?thesis by blast
qed

text \<open>
  Claim C10: the derived \<open>stargazers\<close> field of the merged record is the object whose
  \<open>count\<close> is the remote \<open>stargazers.totalCount\<close> and whose \<open>url\<close> is the remote
  repository URL followed by \<open>/stargazers\<close>.
\<close>

theorem C10_derived_stargazers:
  assumes "find_edge idProperty port edges = Inr gh"
    and "read_prop gh ''node'' = Inr node"
    and "remote_record node"
    and "field_of ''url'' node = Str url"
  shows "\<exists>fields. mergePort ROUTE_PORTS idProperty edges port
                   = Inr (Obj (fields @ ghRepoData node @ own_props port))
       \<and> field fields ''stargazers''
           = Obj [(''count'', field_of ''totalCount'' (field_of ''stargazers'' node)),
                  (''url'', Str (url @ ''/stargazers''))]
       \<and> (\<not> has_key ''stargazers'' (own_props port) \<longrightarrow>
            result_field ''stargazers'' (mergePort ROUTE_PORTS idProperty edges port)
              = Inr (Obj [(''count'', field_of ''totalCount'' (field_of ''stargazers'' node)),
                          (''url'', Str (url @ ''/stargazers''))]))"
proof -
  from derived_remote_record [OF assms(3), of ROUTE_PORTS] assms(4) obtain fields where
    d: "derived ROUTE_PORTS node = Inr fields"
    and s: "field fields ''stargazers''
           = Obj [(''count'', field_of ''totalCount'' (field_of ''stargazers'' node)),
                  (''url'', Str (url @ ''/stargazers''))]"
    by (auto simp: field_def)
  note m = mergePort_matched [OF assms(1,2) d]
  have "result_field ''stargazers'' (mergePort ROUTE_PORTS idProperty edges port)
              = Inr (Obj [(''count'', field_of ''totalCount'' (field_of ''stargazers'' node)),
                          (''url'', Str (url @ ''/stargazers''))])"
    if "\<not> has_key ''stargazers'' (own_props port)"
    using that s by (simp add: m result_field_def field_append has_key_append has_key_ghRepoData)
  with m s show ?thesis by blast
qed

theorem C10_derived_stargazers_witness:
  "result_field ''stargazers'' (mergePort ''/ports'' ''name'' [nord_vim_edge] vim_port)
     = Inr (Obj [(''count'', field_of ''totalCount'' (field_of ''stargazers'' nord_vim)),
                 (''url'', Str (''gh/nord-vim'' @ ''/stargazers''))])"
proof -
  have h1: "find_edge ''name'' vim_port [nord_vim_edge] = Inr nord_vim_edge"
    by code_simp
  have h2: "read_prop nord_vim_edge ''node'' = Inr nord_vim"
    by code_simp
  have h3: "remote_record nord_vim"
    by code_simp
  have h4: "field_of ''url'' nord_vim = Str ''gh/nord-vim''"
    by code_simp
  have h5: "\<not> has_key ''stargazers'' (own_props vim_port)"
    by code_simp
  from C10_derived_stargazers [OF h1 h2 h3 h4, where ROUTE_PORTS = "''/ports''"] h5
  show ?thesis by blast
qed

end
